theory Spec2Isabelle
  imports Complex_Main "HOL-Library.AList" "HOL-Library.List_Lexorder"
begin

section \<open>Python strings\<close>

text \<open>
  A Python \<open>str\<close> is a sequence of Unicode code points, so a string is a list of
  natural numbers and a character is a string of length one. Strings compare
  lexicographically by code point, which is the order of \<open>List_Lexorder\<close>.
  A dict is an association list with distinct keys in insertion order; storing
  under a key is \<open>AList.update\<close> (an existing key keeps its place, a new key goes
  to the end), as in Python.
\<close>

type_synonym pystr = "nat list"

definition ascii :: "string \<Rightarrow> pystr" where
  "ascii s = map of_char s"

definition chars_of :: "pystr \<Rightarrow> pystr list" where
  \<comment> \<open>iterating over a string yields its characters, each a string of length one\<close>
  "chars_of s = map (\<lambda>c. [c]) s"

text \<open>
  The methods of \<open>str\<close> that the program calls are fixed by CPython on ASCII. Beyond
  ASCII they consult the Unicode character database, which is a parameter of the model:
  the per-code-point classes, and the case conversions of a string that holds a
  non-ASCII code point.
\<close>

record unicode =
  u_lower :: "pystr \<Rightarrow> pystr"
  u_upper :: "pystr \<Rightarrow> pystr"
  u_isspace :: "nat \<Rightarrow> bool"
  u_isdigit :: "nat \<Rightarrow> bool"
  u_isdecimal :: "nat \<Rightarrow> bool"
  u_isnumeric :: "nat \<Rightarrow> bool"
  u_isalpha :: "nat \<Rightarrow> bool"
  u_isupper :: "nat \<Rightarrow> bool"
  u_islower :: "nat \<Rightarrow> bool"
  u_istitle :: "nat \<Rightarrow> bool"

definition is_ascii :: "pystr \<Rightarrow> bool" where
  "is_ascii s = list_all (\<lambda>c. c < 128) s"

definition chr_isdigit :: "unicode \<Rightarrow> nat \<Rightarrow> bool" where
  "chr_isdigit U c = (if c < 128 then 48 \<le> c \<and> c \<le> 57 else u_isdigit U c)"

definition chr_isupper :: "unicode \<Rightarrow> nat \<Rightarrow> bool" where
  "chr_isupper U c = (if c < 128 then 65 \<le> c \<and> c \<le> 90 else u_isupper U c)"

definition chr_islower :: "unicode \<Rightarrow> nat \<Rightarrow> bool" where
  "chr_islower U c = (if c < 128 then 97 \<le> c \<and> c \<le> 122 else u_islower U c)"

definition chr_istitle :: "unicode \<Rightarrow> nat \<Rightarrow> bool" where
  "chr_istitle U c = (if c < 128 then False else u_istitle U c)"

definition chr_isalnum :: "unicode \<Rightarrow> nat \<Rightarrow> bool" where
  \<comment> \<open>CPython: alphabetic, decimal, digit or numeric\<close>
  "chr_isalnum U c =
     (if c < 128 then (48 \<le> c \<and> c \<le> 57) \<or> (65 \<le> c \<and> c \<le> 90) \<or> (97 \<le> c \<and> c \<le> 122)
      else u_isalpha U c \<or> u_isdecimal U c \<or> u_isdigit U c \<or> u_isnumeric U c)"

definition chr_isspace :: "unicode \<Rightarrow> nat \<Rightarrow> bool" where
  "chr_isspace U c =
     (if c < 128 then (9 \<le> c \<and> c \<le> 13) \<or> (28 \<le> c \<and> c \<le> 32) else u_isspace U c)"

definition str_isdigit :: "unicode \<Rightarrow> pystr \<Rightarrow> bool" where
  \<comment> \<open>\<open>s.isdigit()\<close>: at least one character, and all of them digits\<close>
  "str_isdigit U s = (s \<noteq> [] \<and> list_all (chr_isdigit U) s)"

definition str_isalnum :: "unicode \<Rightarrow> pystr \<Rightarrow> bool" where
  "str_isalnum U s = (s \<noteq> [] \<and> list_all (chr_isalnum U) s)"

definition str_isupper :: "unicode \<Rightarrow> pystr \<Rightarrow> bool" where
  \<comment> \<open>\<open>s.isupper()\<close>: no lowercase or titlecase character, and at least one uppercase one\<close>
  "str_isupper U s =
     (\<not> list_ex (\<lambda>c. chr_islower U c \<or> chr_istitle U c) s \<and> list_ex (chr_isupper U) s)"

definition str_islower :: "unicode \<Rightarrow> pystr \<Rightarrow> bool" where
  "str_islower U s =
     (\<not> list_ex (\<lambda>c. chr_isupper U c \<or> chr_istitle U c) s \<and> list_ex (chr_islower U) s)"

definition str_lower :: "unicode \<Rightarrow> pystr \<Rightarrow> pystr" where
  "str_lower U s =
     (if is_ascii s then map (\<lambda>c. if 65 \<le> c \<and> c \<le> 90 then c + 32 else c) s
      else u_lower U s)"

definition str_upper :: "unicode \<Rightarrow> pystr \<Rightarrow> pystr" where
  "str_upper U s =
     (if is_ascii s then map (\<lambda>c. if 97 \<le> c \<and> c \<le> 122 then c - 32 else c) s
      else u_upper U s)"

definition str_strip :: "unicode \<Rightarrow> pystr \<Rightarrow> pystr" where
  "str_strip U s = rev (dropWhile (chr_isspace U) (rev (dropWhile (chr_isspace U) s)))"

definition ascii_only :: unicode where
  \<comment> \<open>a database with nothing beyond ASCII, for evaluating the program on ASCII input\<close>
  "ascii_only =
     \<lparr> u_lower = (\<lambda>s. s), u_upper = (\<lambda>s. s), u_isspace = (\<lambda>c. False),
       u_isdigit = (\<lambda>c. False), u_isdecimal = (\<lambda>c. False), u_isnumeric = (\<lambda>c. False),
       u_isalpha = (\<lambda>c. False), u_isupper = (\<lambda>c. False), u_islower = (\<lambda>c. False),
       u_istitle = (\<lambda>c. False) \<rparr>"

text \<open>The format \<open>f"{cp:04X}"\<close>: uppercase hexadecimal, padded with zeros to four digits.\<close>

definition hex_digit :: "nat \<Rightarrow> nat" where
  "hex_digit d = (if d < 10 then 48 + d else 55 + d)"

fun hex_upper :: "nat \<Rightarrow> pystr" where
  "hex_upper n = (if n < 16 then [hex_digit n] else hex_upper (n div 16) @ [hex_digit (n mod 16)])"

declare hex_upper.simps [simp del]

definition fmt_04X :: "nat \<Rightarrow> pystr" where
  "fmt_04X n = replicate (4 - length (hex_upper n)) 48 @ hex_upper n"

text \<open>Python's slice \<open>xs[i:]\<close>: a negative index counts from the end and is clipped at the start.\<close>

definition slice_from :: "int \<Rightarrow> 'a list \<Rightarrow> 'a list" where
  "slice_from i xs = (if i < 0 then drop (nat (int (length xs) + i)) xs else drop (nat i) xs)"

text \<open>
  \<open>list.sort(key=len, reverse=True)\<close>: Python's sort is stable, and \<open>reverse=True\<close>
  keeps elements with equal keys in their original order. That is the stable sort by
  descending length, here the stable insertion sort on the negated length.
\<close>

definition sort_len_reverse :: "pystr list \<Rightarrow> pystr list" where
  "sort_len_reverse ws = sort_key (\<lambda>w. - int (length w)) ws"

section \<open>The character map (server.py and reconstruct.py)\<close>

text \<open>
  Both files build the same table and define the same \<open>codepoint_to_char\<close>:
  \<^verbatim>\<open>
  CHAR_MAP = {}
  for cp in range(0x0020, 0x007F):
      CHAR_MAP[f"{cp:04X}"] = chr(cp)
  for ch in "<euro><pound><yen><bitcoin>":
      CHAR_MAP[f"{ord(ch):04X}"] = ch

  def codepoint_to_char(hex_cp):
      return CHAR_MAP.get(hex_cp.upper(), f"U+{hex_cp}")
  \<close>
\<close>

definition currency_symbols :: pystr where
  \<comment> \<open>the string of the euro, pound, yen and bitcoin signs\<close>
  "currency_symbols = [0x20AC, 0xA3, 0xA5, 0x20BF]"

definition registry_codepoints :: "nat list" where
  \<comment> \<open>the code points that the two loops enumerate, in their order\<close>
  "registry_codepoints = [0x20 ..< 0x7F] @ currency_symbols"

definition CHAR_MAP :: "(pystr \<times> pystr) list" where
  "CHAR_MAP =
     fold (\<lambda>ch m. AList.update (fmt_04X ch) [ch] m) currency_symbols
       (fold (\<lambda>cp m. AList.update (fmt_04X cp) [cp] m) [0x20 ..< 0x7F] [])"

definition codepoint_to_char :: "unicode \<Rightarrow> pystr \<Rightarrow> pystr" where
  "codepoint_to_char U hex_cp =
     (case map_of CHAR_MAP (str_upper U hex_cp) of
        Some ch \<Rightarrow> ch
      | None \<Rightarrow> ascii ''U+'' @ hex_cp)"


section \<open>The live collector (server.py)\<close>

text \<open>
  The session store and the access log are module globals; the model passes them as a
  state. A timestamp is the float that \<open>time.time()\<close> returns, which the code only
  stores and compares with zero; it is a real number here. What a request handler reads
  from the outside (the path, the peer address, a header, the clock) is a field of the
  request.
\<close>

record session =
  codepoints :: "(pystr \<times> real) list"
  ip :: pystr
  user_agent :: pystr
  first_seen :: real
  last_seen :: real

definition new_session :: session where
  \<comment> \<open>the factory of \<open>sessions = defaultdict(lambda: {...})\<close>\<close>
  "new_session = \<lparr> codepoints = [], ip = [], user_agent = [], first_seen = 0, last_seen = 0 \<rparr>"

record log_entry =
  timestamp :: real
  datetime :: pystr
  entry_ip :: pystr
  entry_session_id :: pystr
  entry_codepoint :: pystr
  character :: pystr
  entry_user_agent :: pystr

record server_state =
  sessions :: "(pystr \<times> session) list"
  access_log :: "log_entry list"

record font_request =
  path_session_id :: pystr
  path_codepoint :: pystr
  remote_addr :: pystr
  header_user_agent :: pystr
  time_now :: real
  utcnow_isoformat :: pystr

definition sessions_getitem :: "server_state \<Rightarrow> pystr \<Rightarrow> session" where
  \<comment> \<open>\<open>sessions[session_id]\<close>: an unseen key reads as the factory's value\<close>
  "sessions_getitem st sid = (case map_of (sessions st) sid of Some s \<Rightarrow> s | None \<Rightarrow> new_session)"

text \<open>
  \<open>serve_tracked_font\<close>, lines 168 to 190: the log entry is appended and the session is
  updated. The response that follows (the font file or status 204) reads the file system
  and changes no state; it is not part of the model.
\<close>

definition serve_tracked_font :: "unicode \<Rightarrow> font_request \<Rightarrow> server_state \<Rightarrow> server_state" where
  "serve_tracked_font U rq st =
     (let session_id = path_session_id rq;
          codepoint = str_upper U (path_codepoint rq);
          now = time_now rq;
          entry = \<lparr> timestamp = now, datetime = utcnow_isoformat rq, entry_ip = remote_addr rq,
                    entry_session_id = session_id, entry_codepoint = codepoint,
                    character = codepoint_to_char U codepoint,
                    entry_user_agent = header_user_agent rq \<rparr>;
          sess = sessions_getitem st session_id;
          sess = sess \<lparr> codepoints := AList.update codepoint now (codepoints sess) \<rparr>;
          sess = sess \<lparr> ip := remote_addr rq \<rparr>;
          sess = sess \<lparr> user_agent := header_user_agent rq \<rparr>;
          sess = (if first_seen sess = 0 then sess \<lparr> first_seen := now \<rparr> else sess);
          sess = sess \<lparr> last_seen := now \<rparr>
      in st \<lparr> access_log := access_log st @ [entry],
              sessions := AList.update session_id sess (sessions st) \<rparr>)"

definition initial_state :: server_state where
  \<comment> \<open>the module's globals at start: \<open>sessions\<close> has no key, \<open>access_log = []\<close>\<close>
  "initial_state = \<lparr> sessions = [], access_log = [] \<rparr>"

definition request_for :: "string \<Rightarrow> string \<Rightarrow> real \<Rightarrow> font_request" where
  \<comment> \<open>a request for \<open>/fonts/t/<session_id>/<codepoint>.woff2\<close> from one fixed client,
      arriving when the clock reads \<open>now\<close>\<close>
  "request_for session_id codepoint now =
     \<lparr> path_session_id = ascii session_id, path_codepoint = ascii codepoint,
       remote_addr = ascii ''10.0.0.7'', header_user_agent = ascii ''Mozilla/5.0'',
       time_now = now, utcnow_isoformat = ascii ''2026-01-01T00:00:00+00:00'' \<rparr>"

definition captured :: "server_state \<Rightarrow> pystr \<Rightarrow> pystr list" where
  \<comment> \<open>the keys of a session's \<open>codepoints\<close> dict, in insertion order\<close>
  "captured st sid = map fst (codepoints (sessions_getitem st sid))"

definition COMMON_WORDS :: "pystr list" where
  "COMMON_WORDS = map ascii
    [''the'', ''be'', ''to'', ''of'', ''and'', ''a'', ''in'', ''that'', ''have'', ''i'',
     ''it'', ''for'', ''not'', ''on'', ''with'', ''he'', ''as'', ''you'', ''do'', ''at'',
     ''this'', ''but'', ''his'', ''by'', ''from'', ''they'', ''we'', ''say'', ''her'',
     ''she'', ''or'', ''an'', ''will'', ''my'', ''one'', ''all'', ''would'', ''there'',
     ''their'', ''what'', ''so'', ''up'', ''out'', ''if'', ''about'', ''who'', ''get'',
     ''which'', ''go'', ''me'', ''when'', ''make'', ''can'', ''like'', ''time'', ''no'',
     ''just'', ''him'', ''know'', ''take'', ''people'', ''into'', ''year'', ''your'',
     ''good'', ''some'', ''could'', ''them'', ''see'', ''other'', ''than'', ''then'',
     ''now'', ''look'', ''only'', ''come'', ''its'', ''over'', ''think'', ''also'',
     ''back'', ''after'', ''use'', ''two'', ''how'', ''our'', ''work'', ''first'',
     ''well'', ''way'', ''even'', ''new'', ''want'', ''because'', ''any'', ''these'',
     ''give'', ''day'', ''most'', ''us'', ''bank'', ''account'', ''balance'', ''transfer'',
     ''payment'', ''salary'', ''credit'', ''debit'', ''card'', ''savings'', ''current'',
     ''iban'', ''transaction'', ''amount'', ''total'', ''euro'', ''monthly'', ''pass'',
     ''food'', ''delivery'', ''secure'', ''security'', ''personal'', ''welcome'',
     ''active'', ''enabled'', ''helsinki'', ''finland'']"

text \<open>
  \<open>infer_words\<close> of the server, in two steps: \<open>server_possible\<close> is the local list
  \<open>possible\<close> once it is sorted, and \<open>server_infer_words\<close> returns its slice
  \<open>possible[:15]\<close>.
\<close>

definition server_possible :: "unicode \<Rightarrow> pystr set \<Rightarrow> pystr list" where
  "server_possible U char_set =
     (let char_set_lower = str_lower U ` char_set;
          possible = filter (\<lambda>word. list_all (\<lambda>c. c \<in> char_set_lower) (chars_of word)) COMMON_WORDS
      in sort_len_reverse possible)"

definition server_infer_words :: "unicode \<Rightarrow> pystr set \<Rightarrow> pystr list" where
  "server_infer_words U char_set = take 15 (server_possible U char_set)"

text \<open>
  \<open>api_log\<close>: \<open>since\<close> is the integer that \<open>int(request.args.get("since", 0))\<close>
  yields; a value that \<open>int\<close> rejects never reaches the slices.
\<close>

record log_response =
  entries :: "log_entry list"
  total :: nat

definition api_log :: "int \<Rightarrow> server_state \<Rightarrow> log_response" where
  "api_log since st =
     (let ents = slice_from since (access_log st)
      in \<lparr> entries = slice_from (- 100) ents, total = length (access_log st) \<rparr>)"

section \<open>The reconstruction tool (reconstruct.py)\<close>

text \<open>
  The last list of \<open>WORD_LISTS\<close> holds the ten one-character strings \<open>"0"\<close> to
  \<open>"9"\<close>, written here as the characters of one string.
\<close>

definition WORD_LISTS :: "(pystr \<times> pystr list) list" where
  "WORD_LISTS =
    [(ascii ''banking'', map ascii
       [''account'', ''balance'', ''transfer'', ''payment'', ''salary'', ''credit'',
        ''debit'', ''card'', ''savings'', ''current'', ''iban'', ''transaction'',
        ''amount'', ''total'', ''euro'', ''monthly'', ''statement'', ''withdraw'',
        ''deposit'', ''interest'', ''loan'', ''mortgage'', ''overdraft'', ''fee'',
        ''charge'', ''refund'', ''pending'', ''completed'', ''failed'', ''secure'',
        ''security'', ''authentication'', ''password'', ''login'', ''session'', ''active'',
        ''expired'', ''personal'', ''business'', ''joint'', ''holder'']),
     (ascii ''common'', map ascii
       [''the'', ''be'', ''to'', ''of'', ''and'', ''a'', ''in'', ''that'', ''have'',
        ''it'', ''for'', ''not'', ''on'', ''with'', ''as'', ''you'', ''do'', ''at'',
        ''this'', ''but'', ''by'', ''from'', ''they'', ''we'', ''say'', ''her'', ''she'',
        ''or'', ''an'', ''will'', ''my'', ''one'', ''all'', ''would'', ''there'',
        ''their'', ''what'', ''so'', ''up'', ''out'', ''if'', ''about'', ''who'', ''get'',
        ''which'', ''go'', ''me'', ''when'', ''make'', ''can'', ''like'', ''time'', ''no'',
        ''just'', ''know'', ''take'', ''people'', ''into'', ''year'', ''your'', ''good'',
        ''some'', ''could'', ''them'', ''see'', ''other'', ''than'', ''then'', ''now'',
        ''look'', ''only'', ''come'', ''back'', ''after'', ''use'', ''two'', ''how'',
        ''our'', ''work'', ''first'', ''well'', ''way'', ''even'', ''new'', ''want'',
        ''because'', ''any'', ''these'', ''give'', ''day'', ''most'']),
     (ascii ''names'', map ascii
       [''mihalis'', ''haatainen'', ''antti'', ''korhonen'', ''sanna'', ''virtanen'',
        ''helsinki'', ''finland'', ''bountyy'', ''securebank'', ''netflix'', ''wolt'']),
     (ascii ''numbers_currency'', chars_of (ascii ''0123456789''))]"

definition reconstruct_infer_words ::
    "unicode \<Rightarrow> pystr set \<Rightarrow> pystr list option \<Rightarrow> (pystr \<times> pystr list) list" where
  "reconstruct_infer_words U char_set categories =
     (let categories = (case categories of None \<Rightarrow> map fst WORD_LISTS | Some cs \<Rightarrow> cs);
          char_set_lower = str_lower U ` char_set
      in fold (\<lambda>category results.
                 let words = (case map_of WORD_LISTS category of Some ws \<Rightarrow> ws | None \<Rightarrow> []);
                     possible = filter (\<lambda>w. list_all (\<lambda>c. c \<in> char_set_lower) (chars_of w)) words
                 in AList.update category (sort_len_reverse possible) results)
           categories [])"

record analysis =
  total_unique :: nat
  has_digits :: bool
  has_uppercase :: bool
  has_lowercase :: bool
  has_currency :: bool
  has_punctuation :: bool
  digits :: "pystr list"
  uppercase :: "pystr list"
  lowercase :: "pystr list"
  special :: "pystr list"
  patterns :: "pystr list"

definition analyze_character_set :: "unicode \<Rightarrow> pystr list \<Rightarrow> analysis" where
  "analyze_character_set U chars =
     (let has_digits = list_ex (str_isdigit U) chars;
          has_uppercase = list_ex (str_isupper U) chars;
          has_lowercase = list_ex (str_islower U) chars;
          has_currency = (set chars \<inter> set (chars_of (currency_symbols @ ascii ''$'')) \<noteq> {});
          has_punctuation =
            (set chars \<inter> set (chars_of (ascii ''.,!?;:-()'' @ [39, 34])) \<noteq> {});
          patterns = [];
          patterns = (if has_currency \<and> has_digits
                      then patterns @ [ascii ''CURRENCY_AMOUNT (monetary values detected)'']
                      else patterns);
          patterns = (if has_uppercase \<and> has_lowercase
                      then patterns @ [ascii ''MIXED_CASE (proper nouns or sentences)'']
                      else patterns);
          patterns = (if set (chars_of (ascii ''FI'')) \<subseteq> set chars \<and> list_ex (str_isdigit U) chars
                      then patterns @ [ascii ''FINNISH_IBAN (FI prefix + digits)'']
                      else patterns);
          patterns = (if ascii ''@'' \<in> set chars
                      then patterns @ [ascii ''EMAIL_ADDRESS (@ symbol present)'']
                      else patterns)
      in \<lparr> total_unique = length chars,
           has_digits = has_digits,
           has_uppercase = has_uppercase,
           has_lowercase = has_lowercase,
           has_currency = has_currency,
           has_punctuation = has_punctuation,
           digits = sort (filter (str_isdigit U) chars),
           uppercase = sort (filter (str_isupper U) chars),
           lowercase = sort (filter (str_islower U) chars),
           special = sort (filter (\<lambda>c. \<not> str_isalnum U c \<and> c \<noteq> ascii '' '') chars),
           patterns = patterns \<rparr>)"

text \<open>
  \<open>print_session_analysis\<close>, lines 213 to 218: the words it prints for each category,
  \<^verbatim>\<open>
  inferred = infer_words(set(chars))
  for category, words in inferred.items():
      if words:
          top_words = words[:10]
  \<close>
\<close>

definition print_session_analysis_inferred :: "unicode \<Rightarrow> pystr list \<Rightarrow> (pystr \<times> pystr list) list" where
  "print_session_analysis_inferred U chars =
     map (\<lambda>(category, words). (category, take 10 words))
       (filter (\<lambda>(category, words). words \<noteq> [])
          (reconstruct_infer_words U (set chars) None))"

subsection \<open>Replaying a log file\<close>

text \<open>
  \<open>json.loads\<close> is a parameter of \<open>parse_log_file\<close>: it maps a line to the value it
  decodes to, or to \<open>None\<close> where it raises \<open>JSONDecodeError\<close>. The values are those of
  JSON without the numbers that have a fraction or an exponent. An exception that the
  code does not catch ends the function and is the result \<open>Inl\<close>.
\<close>

datatype json = JNull | JBool bool | JInt int | JStr pystr | JArr "json list" | JObj "(pystr \<times> json) list"

datatype py_error = AttributeError | TypeError

fun hashable :: "json \<Rightarrow> bool" where
  "hashable (JArr _) = False"
| "hashable (JObj _) = False"
| "hashable _ = True"

fun num_of :: "json \<Rightarrow> int option" where
  "num_of (JBool b) = Some (if b then 1 else 0)"
| "num_of (JInt i) = Some i"
| "num_of _ = None"

definition py_eq :: "json \<Rightarrow> json \<Rightarrow> bool" where
  \<comment> \<open>\<open>==\<close> on hashable values: \<open>True == 1\<close> and \<open>False == 0\<close>\<close>
  "py_eq a b =
     (case (num_of a, num_of b) of
        (Some x, Some y) \<Rightarrow> x = y
      | (None, None) \<Rightarrow> a = b
      | _ \<Rightarrow> False)"

fun dict_lookup :: "(json \<times> 'v) list \<Rightarrow> json \<Rightarrow> 'v option" where
  "dict_lookup [] k = None"
| "dict_lookup ((k', v) # kvs) k = (if py_eq k' k then Some v else dict_lookup kvs k)"

fun dict_store :: "json \<Rightarrow> 'v \<Rightarrow> (json \<times> 'v) list \<Rightarrow> (json \<times> 'v) list" where
  \<comment> \<open>\<open>d[k] = v\<close>: an equal key keeps its place and its first spelling\<close>
  "dict_store k v [] = [(k, v)]"
| "dict_store k v ((k', v') # kvs) =
     (if py_eq k' k then (k', v) # kvs else (k', v') # dict_store k v kvs)"

fun set_add :: "json \<Rightarrow> json list \<Rightarrow> json list" where
  "set_add x [] = [x]"
| "set_add x (y # ys) = (if py_eq y x then y # ys else y # set_add x ys)"

definition entry_get :: "(pystr \<times> json) list \<Rightarrow> pystr \<Rightarrow> json \<Rightarrow> json" where
  \<comment> \<open>\<open>entry.get(key, default)\<close>\<close>
  "entry_get obj key dflt = (case map_of obj key of Some v \<Rightarrow> v | None \<Rightarrow> dflt)"

record replay_session =
  rs_codepoints :: "json list"
  rs_ip :: json

definition new_replay_session :: replay_session where
  "new_replay_session = \<lparr> rs_codepoints = [], rs_ip = JStr [] \<rparr>"

definition parse_line ::
    "unicode \<Rightarrow> (pystr \<Rightarrow> json option) \<Rightarrow> pystr \<Rightarrow> (json \<times> replay_session) list
       \<Rightarrow> py_error + (json \<times> replay_session) list" where
  \<comment> \<open>one turn of the loop over the lines of the file\<close>
  "parse_line U loads line sessions' =
     (let line = str_strip U line
      in if line = [] then Inr sessions'
         else case loads line of
           None \<Rightarrow> Inr sessions'
         | Some (JObj obj) \<Rightarrow>
             (let sid = entry_get obj (ascii ''session_id'') (JStr (ascii ''unknown''));
                  cp = entry_get obj (ascii ''codepoint'') (JStr [])
              in if \<not> hashable sid then Inl TypeError
                 else if \<not> hashable cp then Inl TypeError
                 else
                   (let sess = (case dict_lookup sessions' sid of
                                  Some s \<Rightarrow> s | None \<Rightarrow> new_replay_session);
                        sess = sess \<lparr> rs_codepoints := set_add cp (rs_codepoints sess) \<rparr>;
                        sess = sess \<lparr> rs_ip := entry_get obj (ascii ''ip'') (JStr []) \<rparr>
                    in Inr (dict_store sid sess sessions')))
         | Some _ \<Rightarrow> Inl AttributeError)"

fun parse_lines ::
    "unicode \<Rightarrow> (pystr \<Rightarrow> json option) \<Rightarrow> pystr list \<Rightarrow> (json \<times> replay_session) list
       \<Rightarrow> py_error + (json \<times> replay_session) list" where
  "parse_lines U loads [] sessions' = Inr sessions'"
| "parse_lines U loads (line # rest) sessions' =
     (case parse_line U loads line sessions' of
        Inl e \<Rightarrow> Inl e
      | Inr sessions'' \<Rightarrow> parse_lines U loads rest sessions'')"

fun is_str :: "json \<Rightarrow> bool" where
  "is_str (JStr _) = True"
| "is_str _ = False"

fun str_of :: "json \<Rightarrow> pystr" where
  "str_of (JStr s) = s"
| "str_of _ = []"

definition py_sorted :: "json list \<Rightarrow> py_error + json list" where
  \<comment> \<open>\<open>sorted\<close> of a set: \<open><\<close> holds between two strings and between two numbers only\<close>
  "py_sorted xs =
     (if length xs \<le> 1 then Inr xs
      else if list_all is_str xs then Inr (sort_key str_of xs)
      else if list_all (\<lambda>x. num_of x \<noteq> None) xs then Inr (sort_key (\<lambda>x. the (num_of x)) xs)
      else Inl TypeError)"

record replay_result =
  rr_session_id :: json
  rr_ip :: json
  characters :: "pystr list"
  rr_codepoints :: "json list"
  char_count :: nat

definition build_result :: "unicode \<Rightarrow> json \<times> replay_session \<Rightarrow> py_error + replay_result" where
  \<comment> \<open>one turn of the loop over \<open>sessions.items()\<close>; \<open>codepoint_to_char\<close> calls \<open>upper\<close>,
      which only a string has\<close>
  "build_result U item =
     (case item of (sid, data) \<Rightarrow>
        (case py_sorted (rs_codepoints data) of
           Inl e \<Rightarrow> Inl e
         | Inr cps \<Rightarrow>
             if \<not> list_all is_str cps then Inl AttributeError
             else
               (let chars = map (\<lambda>cp. codepoint_to_char U (str_of cp)) cps
                in Inr \<lparr> rr_session_id = sid, rr_ip = rs_ip data, characters = chars,
                         rr_codepoints = cps, char_count = length chars \<rparr>)))"

fun build_results :: "unicode \<Rightarrow> (json \<times> replay_session) list \<Rightarrow> py_error + replay_result list" where
  "build_results U [] = Inr []"
| "build_results U (item # rest) =
     (case build_result U item of
        Inl e \<Rightarrow> Inl e
      | Inr r \<Rightarrow> (case build_results U rest of Inl e \<Rightarrow> Inl e | Inr rs \<Rightarrow> Inr (r # rs)))"

definition parse_log_file ::
    "unicode \<Rightarrow> (pystr \<Rightarrow> json option) \<Rightarrow> pystr list \<Rightarrow> py_error + replay_result list" where
  \<comment> \<open>the argument is the list of the lines of the file at \<open>log_path\<close>\<close>
  "parse_log_file U loads lines =
     (case parse_lines U loads lines [] of
        Inl e \<Rightarrow> Inl e
      | Inr sessions' \<Rightarrow> build_results U sessions')"

text \<open>
  A decoder for the lines of the examples below: it agrees with \<open>json.loads\<close> on a
  well-formed record, on the line \<open>42\<close> and on the line \<open>{oops\<close>, which
  \<open>json.loads\<close> rejects; no other line is passed to it.
\<close>

definition example_record :: pystr where
  \<open>example_record = ascii ''{"session_id": "s1", "codepoint": "0041", "ip": "10.0.0.7"}''\<close>

definition example_loads :: "pystr \<Rightarrow> json option" where
  "example_loads line =
     (if line = example_record
      then Some (JObj [(ascii ''session_id'', JStr (ascii ''s1'')),
                       (ascii ''codepoint'', JStr (ascii ''0041'')),
                       (ascii ''ip'', JStr (ascii ''10.0.0.7''))])
      else if line = ascii ''42'' then Some (JInt 42)
      else None)"

section \<open>The specification's wording of word inference\<close>

text \<open>
  The specification filters a word list to the words "whose every constituent letter
  (case-folded) is a member of the case-folded input set", and sorts them "by length
  descending (ties: stable, preserving original list order)". These two definitions
  follow those words; the code is compared with them below.
\<close>

definition spec_spellable :: "unicode \<Rightarrow> pystr set \<Rightarrow> pystr \<Rightarrow> bool" where
  "spec_spellable U char_set w =
     list_all (\<lambda>c. str_lower U c \<in> str_lower U ` char_set) (chars_of w)"

definition spec_length_desc_stable :: "pystr list \<Rightarrow> pystr list \<Rightarrow> bool" where
  \<comment> \<open>\<open>ys\<close> is \<open>xs\<close> sorted by length descending, ties in the order of \<open>xs\<close>\<close>
  "spec_length_desc_stable xs ys =
     (sorted_wrt (\<lambda>a b. length b \<le> length a) ys
      \<and> (\<forall>n. filter (\<lambda>w. length w = n) ys = filter (\<lambda>w. length w = n) xs))"

section \<open>The character map: lookups\<close>

subsection \<open>Four-digit keys\<close>

lemma hex_upper_step:
  "hex_upper k = (if k div 16 = 0 then [] else hex_upper (k div 16)) @ [hex_digit (k mod 16)]"
  by (subst hex_upper.simps) (simp add: div_eq_0_iff)

lemma hex_digit_0: "hex_digit 0 = 48"
  by (simp add: hex_digit_def)

lemma div_4096_less: "(n::nat) < 65536 \<Longrightarrow> n div 4096 < 16"
  by (simp add: less_mult_imp_div_less)

lemma fmt_04X_small:
  assumes "n < 65536"
  shows "fmt_04X n = [hex_digit (n div 4096), hex_digit (n div 256 mod 16),
                      hex_digit (n div 16 mod 16), hex_digit (n mod 16)]"
proof -
  define q1 where "q1 = n div 16"
  define q2 where "q2 = q1 div 16"
  define q3 where "q3 = q2 div 16"
  have e: "n div 256 = q2" "n div 4096 = q3"
    by (simp_all add: q1_def q2_def q3_def div_mult2_eq [symmetric])
  have "q3 < 16"
    using div_4096_less [OF assms] unfolding e(2) .
  then have q4: "q3 div 16 = 0" "q3 mod 16 = q3" by simp_all
  have z: "q3 \<noteq> 0 \<Longrightarrow> q2 \<noteq> 0" "q2 \<noteq> 0 \<Longrightarrow> q1 \<noteq> 0"
    by (auto simp: q2_def q3_def)
  have s0: "hex_upper n = (if q1 = 0 then [] else hex_upper q1) @ [hex_digit (n mod 16)]"
    unfolding q1_def by (rule hex_upper_step)
  have s1: "hex_upper q1 = (if q2 = 0 then [] else hex_upper q2) @ [hex_digit (q1 mod 16)]"
    unfolding q2_def by (rule hex_upper_step)
  have s2: "hex_upper q2 = (if q3 = 0 then [] else hex_upper q3) @ [hex_digit (q2 mod 16)]"
    unfolding q3_def by (rule hex_upper_step)
  have s3: "hex_upper q3 = [hex_digit q3]"
    using hex_upper_step [of q3] q4 by simp
  have r: "replicate 3 x = [x, x, x]" "replicate 2 x = [x, x]" "replicate (Suc 0) x = [x]" for x :: nat
    by (simp_all add: numeral_eq_Suc)
  have "fmt_04X n = [hex_digit q3, hex_digit (q2 mod 16), hex_digit (q1 mod 16), hex_digit (n mod 16)]"
  proof (cases "q3 = 0")
    case False
    with z have "q2 \<noteq> 0" "q1 \<noteq> 0" by simp_all
    with False show ?thesis by (simp add: fmt_04X_def s0 s1 s2 s3)
  next
    case q3: True
    show ?thesis
    proof (cases "q2 = 0")
      case False
      with z have "q1 \<noteq> 0" by simp
      with False q3 show ?thesis by (simp add: fmt_04X_def s0 s1 s2 hex_digit_0)
    next
      case q2: True
      show ?thesis
      proof (cases "q1 = 0")
        case False
        with q2 q3 show ?thesis by (simp add: fmt_04X_def s0 s1 hex_digit_0 r)
      next
        case True
        with q2 q3 show ?thesis by (simp add: fmt_04X_def s0 hex_digit_0 r)
      qed
    qed
  qed
  then show ?thesis
    unfolding e q1_def .
qed

lemma hex_digit_inj: "a < 16 \<Longrightarrow> b < 16 \<Longrightarrow> hex_digit a = hex_digit b \<Longrightarrow> a = b"
  by (auto simp: hex_digit_def split: if_splits)

lemma fmt_04X_inj:
  assumes "m < 65536" "n < 65536" "fmt_04X m = fmt_04X n"
  shows "m = n"
proof -
  have h: "hex_digit (m div 4096) = hex_digit (n div 4096)"
    "hex_digit (m div 256 mod 16) = hex_digit (n div 256 mod 16)"
    "hex_digit (m div 16 mod 16) = hex_digit (n div 16 mod 16)"
    "hex_digit (m mod 16) = hex_digit (n mod 16)"
    using assms(3) unfolding fmt_04X_small [OF assms(1)] fmt_04X_small [OF assms(2)] by simp_all
  have d3: "m div 4096 = n div 4096"
    by (rule hex_digit_inj [OF div_4096_less [OF assms(1)] div_4096_less [OF assms(2)] h(1)])
  have d2: "m div 256 mod 16 = n div 256 mod 16"
    by (rule hex_digit_inj [OF _ _ h(2)]) simp_all
  have d1: "m div 16 mod 16 = n div 16 mod 16"
    by (rule hex_digit_inj [OF _ _ h(3)]) simp_all
  have d0: "m mod 16 = n mod 16"
    by (rule hex_digit_inj [OF _ _ h(4)]) simp_all
  have s: "k div 256 div 16 = k div 4096" "k div 16 div 16 = k div 256" for k :: nat
    by (simp_all add: div_mult2_eq [symmetric])
  have c: "a div 16 = b div 16 \<Longrightarrow> a mod 16 = b mod 16 \<Longrightarrow> a = b" for a b :: nat
    by (metis div_mult_mod_eq)
  have m256: "m div 256 = n div 256"
    by (rule c) (simp_all only: s d3 d2)
  have m16: "m div 16 = n div 16"
    by (rule c) (simp_all only: s m256 d1)
  show ?thesis
    by (rule c) (rule m16, rule d0)
qed

lemma map_of_fold_update_notin:
  "k \<notin> f ` set xs \<Longrightarrow> map_of (fold (\<lambda>c m. AList.update (f c) (g c) m) xs m0) k = map_of m0 k"
  by (induction xs arbitrary: m0) (auto simp: update_conv')

lemma map_of_fold_update_in:
  "inj_on f (set xs) \<Longrightarrow> c \<in> set xs \<Longrightarrow>
     map_of (fold (\<lambda>c m. AList.update (f c) (g c) m) xs m0) (f c) = Some (g c)"
proof (induction xs arbitrary: m0)
  case Nil
  then show ?case by simp
next
  case (Cons a xs)
  show ?case
  proof (cases "c \<in> set xs")
    case True
    then show ?thesis using Cons by simp
  next
    case False
    then have "c = a" using Cons.prems by simp
    moreover have "f a \<notin> f ` set xs" using Cons.prems False \<open>c = a\<close> by (auto simp: inj_on_def)
    ultimately show ?thesis by (simp add: map_of_fold_update_notin update_conv')
  qed
qed

subsection \<open>The table\<close>

lemma registry_set:
  "set registry_codepoints = {0x20 ..< 0x7F} \<union> {0x20AC, 0xA3, 0xA5, 0x20BF}"
  unfolding registry_codepoints_def set_append set_upt currency_symbols_def by simp

lemma registry_iff:
  "cp \<in> set registry_codepoints
     \<longleftrightarrow> (0x20 \<le> cp \<and> cp \<le> 0x7E) \<or> cp \<in> {0x20AC, 0xA3, 0xA5, 0x20BF}"
  unfolding registry_set by auto

lemma registry_small: "cp \<in> set registry_codepoints \<Longrightarrow> cp < 65536"
  unfolding registry_set by auto

lemma fmt_04X_inj_on_registry: "inj_on fmt_04X (set registry_codepoints)"
  by (rule inj_onI) (blast intro: fmt_04X_inj registry_small)

lemma CHAR_MAP_fold:
  "CHAR_MAP = fold (\<lambda>cp m. AList.update (fmt_04X cp) [cp] m) registry_codepoints []"
  by (simp only: CHAR_MAP_def registry_codepoints_def fold_append comp_apply)

lemma CHAR_MAP_registered:
  "cp \<in> set registry_codepoints \<Longrightarrow> map_of CHAR_MAP (fmt_04X cp) = Some [cp]"
  unfolding CHAR_MAP_fold
  by (rule map_of_fold_update_in [OF fmt_04X_inj_on_registry])

lemma CHAR_MAP_unregistered:
  assumes "k \<notin> fmt_04X ` set registry_codepoints"
  shows "map_of CHAR_MAP k = None"
  unfolding CHAR_MAP_fold map_of_fold_update_notin [OF assms] by simp

lemma hex_digit_range:
  "d < 16 \<Longrightarrow> (48 \<le> hex_digit d \<and> hex_digit d \<le> 57) \<or> (65 \<le> hex_digit d \<and> hex_digit d \<le> 70)"
  by (auto simp: hex_digit_def)

lemma str_upper_hex:
  assumes "list_all (\<lambda>c. (48 \<le> c \<and> c \<le> 57) \<or> (65 \<le> c \<and> c \<le> 70)) s"
  shows "str_upper U s = s" and "str_upper U (str_lower U s) = s"
proof -
  have a: "is_ascii s"
    using assms by (auto simp: is_ascii_def list_all_iff)
  have l: "str_lower U s = map (\<lambda>c. if 65 \<le> c \<and> c \<le> 90 then c + 32 else c) s"
    using a by (simp add: str_lower_def)
  have al: "is_ascii (str_lower U s)"
    unfolding l using assms by (auto simp: is_ascii_def list_all_iff)
  show "str_upper U s = s"
    using a assms by (auto simp: str_upper_def list_all_iff intro!: map_idI)
  show "str_upper U (str_lower U s) = s"
    using al assms unfolding str_upper_def l
    by (auto simp: list_all_iff intro!: map_idI)
qed

lemma fmt_04X_hex:
  assumes "cp < 65536"
  shows "list_all (\<lambda>c. (48 \<le> c \<and> c \<le> 57) \<or> (65 \<le> c \<and> c \<le> 70)) (fmt_04X cp)"
  unfolding fmt_04X_small [OF assms]
  using hex_digit_range [OF div_4096_less [OF assms]]
    hex_digit_range [of "cp div 256 mod 16"] hex_digit_range [of "cp div 16 mod 16"]
    hex_digit_range [of "cp mod 16"]
  by simp

lemma codepoint_to_char_registered:
  assumes "cp \<in> set registry_codepoints" "str_upper U s = fmt_04X cp"
  shows "codepoint_to_char U s = [cp]"
  unfolding codepoint_to_char_def assms(2) CHAR_MAP_registered [OF assms(1)] by simp

lemma codepoint_to_char_unregistered:
  assumes "str_upper U s \<notin> fmt_04X ` set registry_codepoints"
  shows "codepoint_to_char U s = ascii ''U+'' @ s"
  unfolding codepoint_to_char_def CHAR_MAP_unregistered [OF assms] by simp

lemma codepoint_to_char_unregistered_FFFF:
  "codepoint_to_char U (ascii ''FFFF'') = ascii ''U+FFFF''"
proof -
  have f: "fmt_04X 65535 = ascii ''FFFF''"
    by (simp add: fmt_04X_small hex_digit_def ascii_def)
  have u: "str_upper U (ascii ''FFFF'') = fmt_04X 65535"
    unfolding f by (simp add: str_upper_def is_ascii_def ascii_def)
  have "fmt_04X 65535 \<notin> fmt_04X ` set registry_codepoints"
  proof
    assume "fmt_04X 65535 \<in> fmt_04X ` set registry_codepoints"
    then obtain c where c: "c \<in> set registry_codepoints" "fmt_04X 65535 = fmt_04X c"
      by (rule imageE)
    have "c < 65536" by (rule registry_small [OF c(1)])
    then have "65535 = c" using c(2) by (intro fmt_04X_inj) simp_all
    then show False using c(1) unfolding registry_set by simp
  qed
  then show ?thesis
    using codepoint_to_char_unregistered [of U "ascii ''FFFF''"] unfolding u
    by (simp add: ascii_def)
qed

text \<open>
  C4. \<open>codepoint_to_char\<close> is total. A string whose uppercase form is the four-digit
  key of a code point in the printable ASCII range or of one of the four currency signs
  maps to that character, so the key itself and its lowercase spelling both do; every
  other string \<open>s\<close> maps to \<open>U+\<close> followed by \<open>s\<close>; and \<open>FFFF\<close> maps to \<open>U+FFFF\<close>.
\<close>

theorem codepoint_to_char_total:
  "((0x20 \<le> cp \<and> cp \<le> 0x7E) \<or> cp \<in> {0x20AC, 0xA3, 0xA5, 0x20BF} \<longrightarrow>
      (str_upper U s = fmt_04X cp \<longrightarrow> codepoint_to_char U s = [cp])
      \<and> codepoint_to_char U (fmt_04X cp) = [cp]
      \<and> codepoint_to_char U (str_lower U (fmt_04X cp)) = [cp])
   \<and> ((\<forall>c. (0x20 \<le> c \<and> c \<le> 0x7E) \<or> c \<in> {0x20AC, 0xA3, 0xA5, 0x20BF}
            \<longrightarrow> str_upper U s \<noteq> fmt_04X c)
        \<longrightarrow> codepoint_to_char U s = ascii ''U+'' @ s)
   \<and> codepoint_to_char U (ascii ''FFFF'') = ascii ''U+FFFF''"
proof (intro conjI impI)
  assume "(0x20 \<le> cp \<and> cp \<le> 0x7E) \<or> cp \<in> {0x20AC, 0xA3, 0xA5, 0x20BF}"
  then have m: "cp \<in> set registry_codepoints"
    by (simp only: registry_iff)
  note h = fmt_04X_hex [OF registry_small [OF m]]
  show "codepoint_to_char U s = [cp]" if "str_upper U s = fmt_04X cp"
    by (rule codepoint_to_char_registered [OF m that])
  show "codepoint_to_char U (fmt_04X cp) = [cp]"
    by (rule codepoint_to_char_registered [OF m str_upper_hex(1) [OF h]])
  show "codepoint_to_char U (str_lower U (fmt_04X cp)) = [cp]"
    by (rule codepoint_to_char_registered [OF m str_upper_hex(2) [OF h]])
next
  assume n: "\<forall>c. (0x20 \<le> c \<and> c \<le> 0x7E) \<or> c \<in> {0x20AC, 0xA3, 0xA5, 0x20BF}
            \<longrightarrow> str_upper U s \<noteq> fmt_04X c"
  have "str_upper U s \<notin> fmt_04X ` set registry_codepoints"
  proof
    assume "str_upper U s \<in> fmt_04X ` set registry_codepoints"
    then obtain c where c: "c \<in> set registry_codepoints" "str_upper U s = fmt_04X c"
      by (rule imageE)
    from c(1) have "(0x20 \<le> c \<and> c \<le> 0x7E) \<or> c \<in> {0x20AC, 0xA3, 0xA5, 0x20BF}"
      by (simp only: registry_iff)
    with n c(2) show False by blast
  qed
  then show "codepoint_to_char U s = ascii ''U+'' @ s"
    by (rule codepoint_to_char_unregistered)
next
  show "codepoint_to_char U (ascii ''FFFF'') = ascii ''U+FFFF''"
    by (rule codepoint_to_char_unregistered_FFFF)
qed

theorem codepoint_to_char_total_witness:
  "codepoint_to_char ascii_only (ascii ''20ac'') = [0x20AC]
   \<and> codepoint_to_char ascii_only (ascii ''20Ac'') = [0x20AC]
   \<and> codepoint_to_char ascii_only (ascii ''0041'') = ascii ''A''
   \<and> codepoint_to_char ascii_only (ascii ''41'') = ascii ''U+41''"
proof -
  have k: "str_upper ascii_only (ascii ''20ac'') = fmt_04X 0x20AC"
    "str_upper ascii_only (ascii ''20Ac'') = fmt_04X 0x20AC"
    "str_upper ascii_only (ascii ''0041'') = fmt_04X 0x41"
    by (simp_all add: fmt_04X_small hex_digit_def ascii_def str_upper_def is_ascii_def)
  have n: "\<forall>c. (0x20 \<le> c \<and> c \<le> 0x7E) \<or> c \<in> {0x20AC, 0xA3, 0xA5, 0x20BF}
            \<longrightarrow> str_upper ascii_only (ascii ''41'') \<noteq> fmt_04X c"
  proof (intro allI impI)
    fix c :: nat
    assume "(0x20 \<le> c \<and> c \<le> 0x7E) \<or> c \<in> {0x20AC, 0xA3, 0xA5, 0x20BF}"
    then have "c < 65536" by auto
    then have "length (fmt_04X c) = 4" by (simp only: fmt_04X_small) simp
    moreover have "length (str_upper ascii_only (ascii ''41'')) = 2"
      by (simp add: ascii_def str_upper_def is_ascii_def)
    ultimately show "str_upper ascii_only (ascii ''41'') \<noteq> fmt_04X c" by auto
  qed
  have a: "[0x41] = ascii ''A''" "ascii ''U+'' @ ascii ''41'' = ascii ''U+41''"
    by (simp_all add: ascii_def)
  have r: "(0x20 \<le> (0x41::nat) \<and> (0x41::nat) \<le> 0x7E) \<or> (0x41::nat) \<in> {0x20AC, 0xA3, 0xA5, 0x20BF}"
    "(0x20 \<le> (0x20AC::nat) \<and> (0x20AC::nat) \<le> 0x7E) \<or> (0x20AC::nat) \<in> {0x20AC, 0xA3, 0xA5, 0x20BF}"
    by simp_all
  have 1: "codepoint_to_char ascii_only (ascii ''20ac'') = [0x20AC]"
    using codepoint_to_char_total [of "0x20AC" ascii_only "ascii ''20ac''"] r(2) k(1) by blast
  have 2: "codepoint_to_char ascii_only (ascii ''20Ac'') = [0x20AC]"
    using codepoint_to_char_total [of "0x20AC" ascii_only "ascii ''20Ac''"] r(2) k(2) by blast
  have 3: "codepoint_to_char ascii_only (ascii ''0041'') = [0x41]"
    using codepoint_to_char_total [of "0x41" ascii_only "ascii ''0041''"] r(1) k(3) by blast
  have 4: "codepoint_to_char ascii_only (ascii ''41'') = ascii ''U+'' @ ascii ''41''"
    using codepoint_to_char_total [of 0 ascii_only "ascii ''41''"] n by blast
  show ?thesis
    unfolding 1 2 3 4 a by simp
qed

section \<open>The live collector: the session store and the log\<close>

lemma sessions_getitem_serve:
  "sessions_getitem (serve_tracked_font U rq st) sid =
     (if sid = path_session_id rq
      then (sessions_getitem st sid)
             \<lparr> codepoints := AList.update (str_upper U (path_codepoint rq)) (time_now rq)
                               (codepoints (sessions_getitem st sid)),
               ip := remote_addr rq,
               user_agent := header_user_agent rq,
               first_seen := (if first_seen (sessions_getitem st sid) = 0 then time_now rq
                              else first_seen (sessions_getitem st sid)),
               last_seen := time_now rq \<rparr>
      else sessions_getitem st sid)"
  by (simp add: serve_tracked_font_def sessions_getitem_def Let_def update_conv')

lemma captured_serve:
  "captured (serve_tracked_font U rq st) sid =
     (if sid = path_session_id rq \<and> str_upper U (path_codepoint rq) \<notin> set (captured st sid)
      then captured st sid @ [str_upper U (path_codepoint rq)]
      else captured st sid)"
  by (simp add: captured_def sessions_getitem_serve update_keys)

lemma captured_serve_all:
  "set (captured st sid) \<subseteq> set (captured (fold (serve_tracked_font U) rqs st) sid)
   \<and> length (captured st sid) \<le> length (captured (fold (serve_tracked_font U) rqs st) sid)"
proof (induction rqs arbitrary: st)
  case Nil
  show ?case by simp
next
  case (Cons rq rqs)
  have "set (captured st sid) \<subseteq> set (captured (serve_tracked_font U rq st) sid)"
    and "length (captured st sid) \<le> length (captured (serve_tracked_font U rq st) sid)"
    by (auto simp add: captured_serve)
  with Cons.IH [of "serve_tracked_font U rq st"] show ?case
    by (simp del: fold_simps add: fold_Cons) (meson order_trans)
qed

text \<open>
  C7. The keys of a session's \<open>codepoints\<close> dict only grow. One request removes no code
  point of any session and does not shorten the dict, a request for a code point that the
  session already holds leaves every session's keys as they were, and the same holds
  after any sequence of requests.
\<close>

theorem captured_only_grows:
  "set (captured st sid) \<subseteq> set (captured (serve_tracked_font U rq st) sid)
   \<and> length (captured st sid) \<le> length (captured (serve_tracked_font U rq st) sid)
   \<and> (str_upper U (path_codepoint rq) \<in> set (captured st (path_session_id rq))
        \<longrightarrow> captured (serve_tracked_font U rq st) sid = captured st sid)
   \<and> set (captured st sid) \<subseteq> set (captured (fold (serve_tracked_font U) rqs st) sid)
   \<and> length (captured st sid) \<le> length (captured (fold (serve_tracked_font U) rqs st) sid)"
  using captured_serve_all [of st sid U rqs] by (auto simp add: captured_serve)

theorem captured_only_grows_witness:
  "captured (serve_tracked_font ascii_only (request_for ''s1'' ''0061'' 1) initial_state) (ascii ''s1'')
     = [ascii ''0061'']
   \<and> captured (serve_tracked_font ascii_only (request_for ''s1'' ''0061'' 2)
        (serve_tracked_font ascii_only (request_for ''s1'' ''0061'' 1) initial_state)) (ascii ''s1'')
     = [ascii ''0061'']"
proof -
  let ?st = "serve_tracked_font ascii_only (request_for ''s1'' ''0061'' 1) initial_state"
  have 1: "captured ?st (ascii ''s1'') = [ascii ''0061'']"
    by (subst captured_serve)
      (simp add: captured_def sessions_getitem_def initial_state_def
        new_session_def request_for_def str_upper_def is_ascii_def ascii_def)
  have p: "path_codepoint (request_for ''s1'' ''0061'' 2) = ascii ''0061''"
    "path_session_id (request_for ''s1'' ''0061'' 2) = ascii ''s1''"
    by (simp_all add: request_for_def)
  have u: "str_upper ascii_only (ascii ''0061'') = ascii ''0061''"
    by (simp add: str_upper_def is_ascii_def ascii_def)
  have 2: "str_upper ascii_only (path_codepoint (request_for ''s1'' ''0061'' 2))
             \<in> set (captured ?st (path_session_id (request_for ''s1'' ''0061'' 2)))"
    unfolding p u 1 by simp
  show ?thesis
    using captured_only_grows [of ?st "ascii ''s1''" ascii_only "request_for ''s1'' ''0061'' 2" "[]"] 1 2
    by simp
qed

lemma last_seen_serve_all:
  "last_seen (sessions_getitem (fold (serve_tracked_font U) rqs st) sid) =
     (let ts = map time_now (filter (\<lambda>r. path_session_id r = sid) rqs)
      in if ts = [] then last_seen (sessions_getitem st sid) else last ts)"
proof (induction rqs arbitrary: st)
  case Nil
  show ?case by simp
next
  case (Cons rq rqs)
  show ?case
    unfolding fold_Cons comp_apply Cons.IH
    by (simp add: sessions_getitem_serve Let_def)
qed

lemma sorted_last_Max: "sorted ts \<Longrightarrow> ts \<noteq> [] \<Longrightarrow> last ts = Max (set ts)"
  for ts :: "real list"
proof (induction ts)
  case Nil
  then show ?case by simp
next
  case (Cons t ts)
  show ?case
  proof (cases "ts = []")
    case True
    then show ?thesis by simp
  next
    case False
    with Cons have "last ts = Max (set ts)" "\<forall>x\<in>set ts. t \<le> x" by simp_all
    moreover have "last ts \<in> set ts" using False by simp
    ultimately have "max t (Max (set ts)) = Max (set ts)" by (metis max.absorb2)
    then show ?thesis using False \<open>last ts = Max (set ts)\<close> by simp
  qed
qed

text \<open>
  C1, as the code has it. A request sets the session's \<open>last_seen\<close> to its own clock
  reading and leaves the other sessions' \<open>last_seen\<close> alone. After any sequence of
  requests, a session's \<open>last_seen\<close> is the clock reading of the last request for that
  session (its old value when there was none); when the readings of the session's
  requests arrive in non-decreasing order, that is the maximum of them.
\<close>

theorem last_seen_is_last_timestamp:
  "last_seen (sessions_getitem (serve_tracked_font U rq st) (path_session_id rq)) = time_now rq
   \<and> (sid \<noteq> path_session_id rq \<longrightarrow>
        last_seen (sessions_getitem (serve_tracked_font U rq st) sid) = last_seen (sessions_getitem st sid))
   \<and> (let ts = map time_now (filter (\<lambda>r. path_session_id r = sid) rqs)
      in last_seen (sessions_getitem (fold (serve_tracked_font U) rqs st) sid)
           = (if ts = [] then last_seen (sessions_getitem st sid) else last ts)
         \<and> (ts \<noteq> [] \<and> sorted ts \<longrightarrow>
              last_seen (sessions_getitem (fold (serve_tracked_font U) rqs st) sid) = Max (set ts)))"
  unfolding last_seen_serve_all
  by (simp add: sessions_getitem_serve Let_def sorted_last_Max)

theorem last_seen_is_last_timestamp_witness:
  "last_seen (sessions_getitem
      (fold (serve_tracked_font ascii_only)
         [request_for ''abc123'' ''0046'' 5, request_for ''other'' ''0041'' 7, request_for ''abc123'' ''0049'' 10]
         initial_state) (ascii ''abc123'')) = 10"
proof -
  let ?rqs = "[request_for ''abc123'' ''0046'' 5, request_for ''other'' ''0041'' 7,
               request_for ''abc123'' ''0049'' 10]"
  have ts: "map time_now (filter (\<lambda>r. path_session_id r = ascii ''abc123'') ?rqs) = [5, 10]"
    by (simp add: request_for_def ascii_def)
  show ?thesis
    using last_seen_is_last_timestamp [of ascii_only "request_for ''abc123'' ''0046'' 5" initial_state
        "ascii ''abc123''" ?rqs]
    unfolding ts Let_def by simp
qed

text \<open>
  C1 as stated fails: a request whose clock reading is older than the session's
  \<open>last_seen\<close> moves \<open>last_seen\<close> back. Here the readings are 10, then 5.
\<close>

theorem last_seen_regresses:
  "last_seen (sessions_getitem
      (serve_tracked_font ascii_only (request_for ''abc123'' ''0049'' 5)
         (serve_tracked_font ascii_only (request_for ''abc123'' ''0046'' 10) initial_state))
      (ascii ''abc123''))
   \<noteq> max (last_seen (sessions_getitem
              (serve_tracked_font ascii_only (request_for ''abc123'' ''0046'' 10) initial_state)
              (ascii ''abc123'')))
          (time_now (request_for ''abc123'' ''0049'' 5))"
  by (simp add: sessions_getitem_serve request_for_def)

text \<open>
  C9. For \<open>since \<ge> 0\<close> the entries returned are a suffix of the access log, in the
  log's order, that starts at index \<open>since\<close> or later and holds the last 100 of the
  entries from \<open>since\<close> on (all of them when there are fewer); \<open>total\<close> is the length
  of the log.
\<close>

theorem api_log_tail:
  assumes "0 \<le> since"
  shows "entries (api_log since st)
           = drop (max (nat since) (length (access_log st) - 100)) (access_log st)
         \<and> length (entries (api_log since st)) = min 100 (length (access_log st) - nat since)
         \<and> total (api_log since st) = length (access_log st)"
proof -
  have "entries (api_log since st)
          = drop (length (access_log st) - nat since - 100) (drop (nat since) (access_log st))"
    using assms by (simp add: api_log_def slice_from_def Let_def nat_diff_distrib')
  also have "\<dots> = drop (max (nat since) (length (access_log st) - 100)) (access_log st)"
    unfolding drop_drop by (rule arg_cong [where f = "\<lambda>n. drop n (access_log st)"]) linarith
  finally have e: "entries (api_log since st)
          = drop (max (nat since) (length (access_log st) - 100)) (access_log st)" .
  have "length (entries (api_log since st)) = min 100 (length (access_log st) - nat since)"
    unfolding e by simp
  with e show ?thesis by (simp add: api_log_def Let_def)
qed

theorem api_log_tail_witness:
  "map timestamp (entries (api_log 1
      (fold (serve_tracked_font ascii_only)
         [request_for ''s'' ''0041'' 1, request_for ''s'' ''0042'' 2, request_for ''s'' ''0043'' 3]
         initial_state))) = [2, 3]
   \<and> total (api_log 1
      (fold (serve_tracked_font ascii_only)
         [request_for ''s'' ''0041'' 1, request_for ''s'' ''0042'' 2, request_for ''s'' ''0043'' 3]
         initial_state)) = 3"
proof -
  let ?st = "fold (serve_tracked_font ascii_only)
         [request_for ''s'' ''0041'' 1, request_for ''s'' ''0042'' 2, request_for ''s'' ''0043'' 3]
         initial_state"
  have l: "map timestamp (access_log ?st) = [1, 2, 3]"
    by (simp add: serve_tracked_font_def Let_def initial_state_def request_for_def)
  have "(0::int) \<le> 1" by simp
  from api_log_tail [OF this, of ?st] have
    "map timestamp (entries (api_log 1 ?st))
       = drop (max (nat 1) (length (map timestamp (access_log ?st)) - 100)) (map timestamp (access_log ?st))"
    and "total (api_log 1 ?st) = length (map timestamp (access_log ?st))"
    by (simp_all add: drop_map)
  then show ?thesis unfolding l by simp
qed

section \<open>The reconstruction tool: the analysis of a character set\<close>

lemma analysis_fields:
  "has_currency (analyze_character_set U chars)
     = (set chars \<inter> set (chars_of (currency_symbols @ ascii ''$'')) \<noteq> {})"
  "digits (analyze_character_set U chars) = sort (filter (str_isdigit U) chars)"
  "uppercase (analyze_character_set U chars) = sort (filter (str_isupper U) chars)"
  "lowercase (analyze_character_set U chars) = sort (filter (str_islower U) chars)"
  "special (analyze_character_set U chars)
     = sort (filter (\<lambda>c. \<not> str_isalnum U c \<and> c \<noteq> ascii '' '') chars)"
  by (simp_all add: analyze_character_set_def Let_def)

lemma currency_chars:
  "set (chars_of (currency_symbols @ ascii ''$'')) = {[0x20AC], [0xA3], [0xA5], [0x20BF], ascii ''$''}"
  by (simp add: chars_of_def currency_symbols_def ascii_def)

text \<open>
  C5, as the code has it. \<open>has_currency\<close> tests the set against the five characters of
  the string in the code: the euro, pound, yen and bitcoin signs and the dollar sign.
\<close>

theorem has_currency_iff:
  "has_currency (analyze_character_set U chars) \<longleftrightarrow>
     [0x20AC] \<in> set chars \<or> [0xA3] \<in> set chars \<or> [0xA5] \<in> set chars
     \<or> [0x20BF] \<in> set chars \<or> ascii ''$'' \<in> set chars"
  unfolding analysis_fields currency_chars by auto

text \<open>
  C5 as stated fails: the set that holds only the dollar sign holds none of the four
  signs of the character map, and its currency flag is set.
\<close>

theorem has_currency_dollar:
  "has_currency (analyze_character_set ascii_only [ascii ''$''])
   \<and> set [ascii ''$''] \<inter> set (chars_of currency_symbols) = {}"
  unfolding analysis_fields currency_chars
  by (simp add: chars_of_def currency_symbols_def ascii_def)

lemma patterns_FINNISH_IBAN:
  "ascii ''FINNISH_IBAN (FI prefix + digits)'' \<in> set (patterns (analyze_character_set U chars))
     \<longleftrightarrow> set (chars_of (ascii ''FI'')) \<subseteq> set chars \<and> list_ex (str_isdigit U) chars"
proof -
  have ne: "ascii ''FINNISH_IBAN (FI prefix + digits)'' \<noteq> ascii ''CURRENCY_AMOUNT (monetary values detected)''"
    "ascii ''FINNISH_IBAN (FI prefix + digits)'' \<noteq> ascii ''MIXED_CASE (proper nouns or sentences)''"
    "ascii ''FINNISH_IBAN (FI prefix + digits)'' \<noteq> ascii ''EMAIL_ADDRESS (@ symbol present)''"
    by (simp_all add: ascii_def)
  show ?thesis
    by (simp add: analyze_character_set_def Let_def ne)
qed

text \<open>
  C6. \<open>FINNISH_IBAN\<close> is reported exactly when the string \<open>F\<close> is an element, the
  string \<open>I\<close> is an element and some element satisfies \<open>isdigit\<close>; the elements
  \<open>F\<close>, \<open>I\<close>, \<open>2\<close>, \<open>1\<close>, \<open>0\<close> trigger it.
\<close>

theorem finnish_iban_iff:
  "(ascii ''FINNISH_IBAN (FI prefix + digits)'' \<in> set (patterns (analyze_character_set U chars))
      \<longleftrightarrow> ascii ''F'' \<in> set chars \<and> ascii ''I'' \<in> set chars \<and> list_ex (str_isdigit U) chars)
   \<and> ascii ''FINNISH_IBAN (FI prefix + digits)''
        \<in> set (patterns (analyze_character_set U (map ascii [''F'', ''I'', ''2'', ''1'', ''0''])))"
proof -
  have d: "str_isdigit U (ascii ''2'')"
    by (simp add: str_isdigit_def chr_isdigit_def ascii_def)
  show ?thesis
    unfolding patterns_FINNISH_IBAN using d by (simp add: chars_of_def ascii_def)
qed

lemma isdigit_isalnum: "str_isdigit U c \<Longrightarrow> str_isalnum U c"
  by (auto simp: str_isdigit_def str_isalnum_def chr_isdigit_def chr_isalnum_def list_all_iff)

lemma isupper_not_islower: "str_isupper U c \<Longrightarrow> \<not> str_islower U c"
  by (auto simp: str_isupper_def str_islower_def list_ex_iff)

lemma space_classes:
  "\<not> str_isdigit U (ascii '' '')" "\<not> str_isupper U (ascii '' '')" "\<not> str_islower U (ascii '' '')"
  by (simp_all add: ascii_def str_isdigit_def str_isupper_def str_islower_def
      chr_isdigit_def chr_isupper_def chr_islower_def)

lemma single_ascii_classes:
  assumes "length c = Suc 0" "is_ascii c"
  shows "str_isdigit U c \<Longrightarrow> \<not> str_isupper U c" "str_isdigit U c \<Longrightarrow> \<not> str_islower U c"
    "str_isupper U c \<Longrightarrow> str_isalnum U c" "str_islower U c \<Longrightarrow> str_isalnum U c"
proof -
  obtain x where c: "c = [x]" "x < 128"
    using assms by (cases c) (auto simp: is_ascii_def)
  show "str_isdigit U c \<Longrightarrow> \<not> str_isupper U c" "str_isdigit U c \<Longrightarrow> \<not> str_islower U c"
    "str_isupper U c \<Longrightarrow> str_isalnum U c" "str_islower U c \<Longrightarrow> str_isalnum U c"
    unfolding c by (simp_all add: str_isdigit_def str_isupper_def str_islower_def str_isalnum_def
        chr_isdigit_def chr_isupper_def chr_islower_def chr_isalnum_def c(2))
qed

text \<open>
  C10, as the code has it. Each of the four lists is sorted in ascending order and none
  holds the space character; \<open>uppercase\<close> and \<open>lowercase\<close> share no element, and
  neither do \<open>digits\<close> and \<open>special\<close>. When every element of the input is a single
  ASCII character, the four lists are pairwise disjoint.
\<close>

theorem analysis_subsets:
  "(let a = analyze_character_set U chars
    in sorted (digits a) \<and> sorted (uppercase a) \<and> sorted (lowercase a) \<and> sorted (special a)
       \<and> ascii '' '' \<notin> set (digits a) \<union> set (uppercase a) \<union> set (lowercase a) \<union> set (special a)
       \<and> set (uppercase a) \<inter> set (lowercase a) = {}
       \<and> set (digits a) \<inter> set (special a) = {}
       \<and> ((\<forall>c \<in> set chars. length c = 1 \<and> is_ascii c) \<longrightarrow>
             set (digits a) \<inter> set (uppercase a) = {}
             \<and> set (digits a) \<inter> set (lowercase a) = {}
             \<and> set (uppercase a) \<inter> set (special a) = {}
             \<and> set (lowercase a) \<inter> set (special a) = {}))"
  unfolding Let_def analysis_fields
  using space_classes [of U]
  by (auto dest: isdigit_isalnum isupper_not_islower single_ascii_classes [rotated 2])

theorem analysis_subsets_witness:
  "set (digits (analyze_character_set ascii_only (map ascii [''F'', ''I'', ''2'', '' '', ''a'', ''$''])))
     \<inter> set (uppercase (analyze_character_set ascii_only (map ascii [''F'', ''I'', ''2'', '' '', ''a'', ''$''])))
     = {}
   \<and> set (uppercase (analyze_character_set ascii_only (map ascii [''F'', ''I'', ''2'', '' '', ''a'', ''$''])))
     \<inter> set (special (analyze_character_set ascii_only (map ascii [''F'', ''I'', ''2'', '' '', ''a'', ''$''])))
     = {}
   \<and> uppercase (analyze_character_set ascii_only (map ascii [''F'', ''I'', ''2'', '' '', ''a'', ''$'']))
     = map ascii [''F'', ''I'']"
proof -
  let ?chars = "map ascii [''F'', ''I'', ''2'', '' '', ''a'', ''$'']"
  have h: "\<forall>c \<in> set ?chars. length c = 1 \<and> is_ascii c"
    by (simp add: ascii_def is_ascii_def)
  have u: "uppercase (analyze_character_set ascii_only ?chars) = map ascii [''F'', ''I'']"
    unfolding analysis_fields
    by (simp add: ascii_def str_isupper_def chr_isupper_def chr_islower_def chr_istitle_def)
  show ?thesis
    using analysis_subsets [of ascii_only ?chars] h u unfolding Let_def by blast
qed

text \<open>
  C10 as stated fails: the token \<open>U+FFFF\<close>, which \<open>codepoint_to_char\<close> returns for an
  unmapped code point, satisfies \<open>isupper\<close> and not \<open>isalnum\<close>, so it is in
  \<open>uppercase\<close> and in \<open>special\<close>.
\<close>

theorem uppercase_special_overlap:
  "set (uppercase (analyze_character_set ascii_only [codepoint_to_char ascii_only (ascii ''FFFF'')]))
     \<inter> set (special (analyze_character_set ascii_only [codepoint_to_char ascii_only (ascii ''FFFF'')]))
   \<noteq> {}"
proof -
  have c: "codepoint_to_char ascii_only (ascii ''FFFF'') = ascii ''U+FFFF''"
    using codepoint_to_char_unregistered_FFFF .
  show ?thesis
    unfolding c analysis_fields
    by (simp add: ascii_def str_isupper_def str_isalnum_def chr_isupper_def chr_islower_def
        chr_istitle_def chr_isalnum_def)
qed

section \<open>Word inference\<close>

lemma spellable_mono:
  "A \<subseteq> B \<Longrightarrow> list_all (\<lambda>c. c \<in> f ` A) cs \<Longrightarrow> list_all (\<lambda>c. c \<in> f ` B) cs"
  unfolding list_all_iff by blast

lemma set_sort_len_reverse: "set (sort_len_reverse ws) = set ws"
  by (simp add: sort_len_reverse_def)

lemma server_possible_mono:
  "A \<subseteq> B \<Longrightarrow> set (server_possible U A) \<subseteq> set (server_possible U B)"
  by (auto simp: server_possible_def Let_def set_sort_len_reverse dest: spellable_mono)

lemma reconstruct_infer_words_lookup:
  "map_of (reconstruct_infer_words U A cats) category =
     (if category \<in> set (case cats of None \<Rightarrow> map fst WORD_LISTS | Some cs \<Rightarrow> cs)
      then Some (sort_len_reverse
                   (filter (\<lambda>w. list_all (\<lambda>c. c \<in> str_lower U ` A) (chars_of w))
                      (case map_of WORD_LISTS category of Some ws \<Rightarrow> ws | None \<Rightarrow> [])))
      else None)"
proof -
  let ?g = "\<lambda>category. sort_len_reverse
                   (filter (\<lambda>w. list_all (\<lambda>c. c \<in> str_lower U ` A) (chars_of w))
                      (case map_of WORD_LISTS category of Some ws \<Rightarrow> ws | None \<Rightarrow> []))"
  let ?cs = "case cats of None \<Rightarrow> map fst WORD_LISTS | Some cs \<Rightarrow> cs"
  have r: "reconstruct_infer_words U A cats = fold (\<lambda>c m. AList.update (id c) (?g c) m) ?cs []"
    by (simp add: reconstruct_infer_words_def Let_def)
  show ?thesis
  proof (cases "category \<in> set ?cs")
    case True
    have "map_of (fold (\<lambda>c m. AList.update (id c) (?g c) m) ?cs []) (id category) = Some (?g category)"
      by (rule map_of_fold_update_in [OF _ True]) simp
    with True show ?thesis unfolding r by simp
  next
    case False
    then have "category \<notin> id ` set ?cs" by simp
    from map_of_fold_update_notin [OF this, of ?g "[]"] False show ?thesis
      unfolding r by simp
  qed
qed

text \<open>
  C2, as the code has it. The reconstruction tool's \<open>infer_words\<close> does not truncate:
  for \<open>A \<subseteq> B\<close> and every category of the result, each candidate for \<open>A\<close> is a
  candidate for \<open>B\<close>. The server's \<open>infer_words\<close> returns the first 15 of its sorted
  list: each word it returns for \<open>A\<close> is in the sorted list for \<open>B\<close> before the
  slice, and is returned for \<open>B\<close> when that list has at most 15 words.
\<close>

theorem infer_words_monotone:
  assumes "A \<subseteq> B"
  shows "(\<forall>ws. map_of (reconstruct_infer_words U A cats) category = Some ws \<longrightarrow>
            (\<exists>ws'. map_of (reconstruct_infer_words U B cats) category = Some ws' \<and> set ws \<subseteq> set ws'))
         \<and> set (server_infer_words U A) \<subseteq> set (server_possible U B)
         \<and> (length (server_possible U B) \<le> 15 \<longrightarrow>
              set (server_infer_words U A) \<subseteq> set (server_infer_words U B))"
proof (intro conjI allI impI)
  fix ws
  assume "map_of (reconstruct_infer_words U A cats) category = Some ws"
  then show "\<exists>ws'. map_of (reconstruct_infer_words U B cats) category = Some ws' \<and> set ws \<subseteq> set ws'"
    using assms unfolding reconstruct_infer_words_lookup
    by (auto simp: set_sort_len_reverse split: if_splits dest: spellable_mono)
next
  have "set (server_infer_words U A) \<subseteq> set (server_possible U A)"
    unfolding server_infer_words_def by (rule set_take_subset)
  then show s: "set (server_infer_words U A) \<subseteq> set (server_possible U B)"
    using server_possible_mono [OF assms, of U] by blast
  show "set (server_infer_words U A) \<subseteq> set (server_infer_words U B)"
    if "length (server_possible U B) \<le> 15"
    using s that by (simp add: server_infer_words_def)
qed

theorem infer_words_monotone_witness:
  "set (server_infer_words ascii_only {ascii ''a''})
     \<subseteq> set (server_infer_words ascii_only {ascii ''a'', ascii ''t''})
   \<and> (\<exists>ws'. map_of (reconstruct_infer_words ascii_only {ascii ''a'', ascii ''t''} None) (ascii ''common'')
               = Some ws' \<and> set [ascii ''a''] \<subseteq> set ws')"
proof -
  have s: "{ascii ''a''} \<subseteq> {ascii ''a'', ascii ''t''}"
    by simp
  have l: "length (server_possible ascii_only {ascii ''a'', ascii ''t''}) \<le> 15"
    by code_simp
  have r: "map_of (reconstruct_infer_words ascii_only {ascii ''a''} None) (ascii ''common'')
             = Some [ascii ''a'']"
    by code_simp
  from infer_words_monotone [OF s, of ascii_only None "ascii ''common''"] l r
  show ?thesis by blast
qed

text \<open>
  C2 as stated fails for the server's \<open>infer_words\<close>: the set \<open>{a}\<close> yields the word
  \<open>a\<close>; its superset \<open>{a, e, t, n, h, s, o}\<close> spells 18 words, the first 15 by length
  are returned, and \<open>a\<close> is not among them.
\<close>

theorem server_infer_words_not_monotone:
  "{ascii ''a''} \<subseteq> set (chars_of (ascii ''aetnhso''))
   \<and> ascii ''a'' \<in> set (server_infer_words ascii_only {ascii ''a''})
   \<and> ascii ''a'' \<notin> set (server_infer_words ascii_only (set (chars_of (ascii ''aetnhso''))))"
proof -
  have 1: "server_infer_words ascii_only {ascii ''a''} = [ascii ''a'']"
    by code_simp
  have 2: "server_infer_words ascii_only (set (chars_of (ascii ''aetnhso''))) =
     map ascii [''these'', ''that'', ''than'', ''then'', ''the'', ''not'', ''she'', ''one'',
                ''see'', ''to'', ''on'', ''he'', ''as'', ''at'', ''an'']"
    by code_simp
  show ?thesis
    unfolding 1 2 by (simp add: chars_of_def ascii_def)
qed

subsection \<open>The code against the specification's wording\<close>

lemma COMMON_WORDS_plain:
  "list_all (list_all (\<lambda>c. (97 \<le> c \<and> c \<le> 122) \<or> (48 \<le> c \<and> c \<le> 57))) COMMON_WORDS"
  by code_simp

lemma WORD_LISTS_plain:
  "list_all (\<lambda>kv. list_all (list_all (\<lambda>c. (97 \<le> c \<and> c \<le> 122) \<or> (48 \<le> c \<and> c \<le> 57))) (snd kv))
     WORD_LISTS"
  by code_simp

lemma str_lower_plain:
  "(97 \<le> c \<and> c \<le> 122) \<or> (48 \<le> c \<and> c \<le> 57) \<Longrightarrow> str_lower U [c] = [c]"
  by (auto simp: str_lower_def is_ascii_def)

lemma spellable_plain:
  assumes "list_all (\<lambda>c. (97 \<le> c \<and> c \<le> 122) \<or> (48 \<le> c \<and> c \<le> 57)) w"
  shows "list_all (\<lambda>c. c \<in> str_lower U ` A) (chars_of w) = spec_spellable U A w"
  using assms unfolding spec_spellable_def chars_of_def list_all_iff
  by (auto simp: str_lower_plain)

lemma filter_spellable_plain:
  assumes "list_all (list_all (\<lambda>c. (97 \<le> c \<and> c \<le> 122) \<or> (48 \<le> c \<and> c \<le> 57))) ws"
  shows "filter (\<lambda>w. list_all (\<lambda>c. c \<in> str_lower U ` A) (chars_of w)) ws
           = filter (spec_spellable U A) ws"
  using assms by (intro filter_cong refl spellable_plain) (simp add: list_all_iff)

lemma sort_len_reverse_spec: "spec_length_desc_stable xs (sort_len_reverse xs)"
proof -
  have "sorted (map (\<lambda>w. - int (length w)) (sort_len_reverse xs))"
    unfolding sort_len_reverse_def by (rule sorted_sort_key)
  then have 1: "sorted_wrt (\<lambda>a b. length b \<le> length a) (sort_len_reverse xs)"
    by (simp add: sorted_map)
  have 2: "filter (\<lambda>w. length w = n) (sort_len_reverse xs) = filter (\<lambda>w. length w = n) xs" for n
    using sort_key_stable [of "\<lambda>w. - int (length w)" "- int n" xs]
    by (simp add: sort_len_reverse_def)
  from 1 2 show ?thesis
    by (simp add: spec_length_desc_stable_def)
qed

lemma WORD_LISTS_entry_plain:
  assumes "map_of WORD_LISTS category = Some ws"
  shows "list_all (list_all (\<lambda>c. (97 \<le> c \<and> c \<le> 122) \<or> (48 \<le> c \<and> c \<le> 57))) ws"
proof -
  have "(category, ws) \<in> set WORD_LISTS"
    using assms by (rule map_of_SomeD)
  with WORD_LISTS_plain show ?thesis
    unfolding list_all_iff [of _ WORD_LISTS] by force
qed

lemma distinct_fold_update:
  "distinct (map fst m0) \<Longrightarrow> distinct (map fst (fold (\<lambda>c m. AList.update (f c) (g c) m) xs m0))"
  by (induction xs arbitrary: m0) (simp_all add: distinct_update)

lemma distinct_reconstruct_infer_words: "distinct (map fst (reconstruct_infer_words U A cats))"
  unfolding reconstruct_infer_words_def Let_def
  by (rule distinct_fold_update) simp

lemma map_of_filter_snd:
  "distinct (map fst xs) \<Longrightarrow>
     map_of (filter (\<lambda>(k, v). P v) xs) k
       = (case map_of xs k of None \<Rightarrow> None | Some v \<Rightarrow> if P v then Some v else None)"
proof (induction xs)
  case Nil
  show ?case by simp
next
  case (Cons x xs)
  obtain k' v' where x: "x = (k', v')" by (cases x)
  have n: "map_of (filter (\<lambda>(k, v). P v) xs) k' = None"
    using Cons.prems unfolding x by (auto simp: map_of_eq_None_iff)
  show ?case
    using Cons n unfolding x by (auto split: option.splits)
qed

lemma print_session_analysis_inferred_lookup:
  "map_of (print_session_analysis_inferred U chars) category
     = (case map_of (reconstruct_infer_words U (set chars) None) category of
          None \<Rightarrow> None
        | Some ws \<Rightarrow> if ws = [] then None else Some (take 10 ws))"
proof -
  have m: "map_of (map (\<lambda>(c, ws). (c, take 10 ws)) xs) k = map_option (take 10) (map_of xs k)"
    for xs :: "(pystr \<times> pystr list) list" and k
    by (induction xs) auto
  show ?thesis
    unfolding print_session_analysis_inferred_def m
      map_of_filter_snd [OF distinct_reconstruct_infer_words, of "\<lambda>ws. ws \<noteq> []"]
    by (simp split: option.splits)
qed

text \<open>
  C8. The server's \<open>infer_words\<close> returns the first 15 words of \<open>COMMON_WORDS\<close>
  filtered and sorted as the specification says. For a category of \<open>WORD_LISTS\<close> the
  reconstruction tool's \<open>infer_words\<close> returns that category's list filtered and
  sorted in the same way, whether the categories are defaulted or passed, and
  \<open>print_session_analysis\<close> prints the first 10 of it (nothing when it is empty).
\<close>

theorem inference_result:
  "(\<exists>ys. spec_length_desc_stable (filter (spec_spellable U A) COMMON_WORDS) ys
         \<and> server_infer_words U A = take 15 ys)
   \<and> (map_of WORD_LISTS category = Some words \<longrightarrow>
        (\<exists>ys. spec_length_desc_stable (filter (spec_spellable U A) words) ys
              \<and> map_of (reconstruct_infer_words U A None) category = Some ys
              \<and> (\<forall>cs. category \<in> set cs \<longrightarrow>
                    map_of (reconstruct_infer_words U A (Some cs)) category = Some ys))
        \<and> (\<exists>ys. spec_length_desc_stable (filter (spec_spellable U (set chars)) words) ys
              \<and> map_of (print_session_analysis_inferred U chars) category
                  = (if ys = [] then None else Some (take 10 ys))))"
proof (intro conjI impI)
  have "server_infer_words U A = take 15 (sort_len_reverse (filter (spec_spellable U A) COMMON_WORDS))"
    unfolding server_infer_words_def server_possible_def Let_def
      filter_spellable_plain [OF COMMON_WORDS_plain] ..
  then show "\<exists>ys. spec_length_desc_stable (filter (spec_spellable U A) COMMON_WORDS) ys
         \<and> server_infer_words U A = take 15 ys"
    using sort_len_reverse_spec by blast
next
  assume w: "map_of WORD_LISTS category = Some words"
  note p = filter_spellable_plain [OF WORD_LISTS_entry_plain [OF w]]
  have c: "category \<in> set (map fst WORD_LISTS)"
    using map_of_SomeD [OF w] by force
  have r: "map_of (reconstruct_infer_words U B None) category
             = Some (sort_len_reverse (filter (spec_spellable U B) words))" for B
    unfolding reconstruct_infer_words_lookup using c by (simp add: w p)
  have s: "map_of (reconstruct_infer_words U A (Some cs)) category
             = Some (sort_len_reverse (filter (spec_spellable U A) words))"
    if "category \<in> set cs" for cs
    unfolding reconstruct_infer_words_lookup using that by (simp add: w p)
  show "\<exists>ys. spec_length_desc_stable (filter (spec_spellable U A) words) ys
              \<and> map_of (reconstruct_infer_words U A None) category = Some ys
              \<and> (\<forall>cs. category \<in> set cs \<longrightarrow>
                    map_of (reconstruct_infer_words U A (Some cs)) category = Some ys)"
    using sort_len_reverse_spec r s by blast
  have "map_of (print_session_analysis_inferred U chars) category
          = (if sort_len_reverse (filter (spec_spellable U (set chars)) words) = [] then None
             else Some (take 10 (sort_len_reverse (filter (spec_spellable U (set chars)) words))))"
    unfolding print_session_analysis_inferred_lookup r by simp
  then show "\<exists>ys. spec_length_desc_stable (filter (spec_spellable U (set chars)) words) ys
              \<and> map_of (print_session_analysis_inferred U chars) category
                  = (if ys = [] then None else Some (take 10 ys))"
    using sort_len_reverse_spec by blast
qed

theorem inference_result_witness:
  "spec_length_desc_stable
     (filter (spec_spellable ascii_only (set (chars_of (ascii ''balance'')))) (snd (hd WORD_LISTS)))
     [ascii ''balance'']
   \<and> map_of (reconstruct_infer_words ascii_only (set (chars_of (ascii ''balance''))) None)
        (ascii ''banking'') = Some [ascii ''balance'']"
proof -
  let ?A = "set (chars_of (ascii ''balance''))"
  have w: "map_of WORD_LISTS (ascii ''banking'') = Some (snd (hd WORD_LISTS))"
    by code_simp
  have e: "map_of (reconstruct_infer_words ascii_only ?A None) (ascii ''banking'')
             = Some [ascii ''balance'']"
    by code_simp
  from inference_result [of ascii_only ?A "ascii ''banking''" "snd (hd WORD_LISTS)"] w e
  show ?thesis by auto
qed

section \<open>The reconstruction tool: replaying a log file\<close>

lemma parse_line_skipped:
  "str_strip U line = [] \<or> loads (str_strip U line) = None \<Longrightarrow> parse_line U loads line s = Inr s"
  by (auto simp: parse_line_def Let_def)

lemma parse_lines_append:
  "parse_lines U loads (xs @ ys) s =
     (case parse_lines U loads xs s of Inl e \<Rightarrow> Inl e | Inr s' \<Rightarrow> parse_lines U loads ys s')"
  by (induction xs arbitrary: s) (simp_all split: sum.splits)

text \<open>
  What the \<open>except json.JSONDecodeError: continue\<close> achieves: a blank line and a line
  that \<open>json.loads\<close> rejects are dropped wherever they stand, and the result is that of
  the remaining lines.
\<close>

lemma parse_log_file_skips_undecodable:
  assumes "str_strip U bad = [] \<or> loads (str_strip U bad) = None"
  shows "parse_log_file U loads (xs @ bad # ys) = parse_log_file U loads (xs @ ys)"
proof -
  have "parse_line U loads bad s = Inr s" for s
    using assms by (rule parse_line_skipped)
  then show ?thesis
    unfolding parse_log_file_def parse_lines_append
    by (simp split: sum.splits)
qed

lemma parse_log_file_filter:
  "parse_log_file U loads ls
     = parse_log_file U loads (filter (\<lambda>l. str_strip U l \<noteq> [] \<and> loads (str_strip U l) \<noteq> None) ls)"
proof -
  have "parse_lines U loads ls s
     = parse_lines U loads (filter (\<lambda>l. str_strip U l \<noteq> [] \<and> loads (str_strip U l) \<noteq> None) ls) s"
    for s
    by (induction ls arbitrary: s) (auto simp: parse_line_skipped split: sum.splits)
  then show ?thesis
    by (simp add: parse_log_file_def)
qed

lemma example_record_stripped: "str_strip ascii_only example_record = example_record"
  by (simp add: str_strip_def example_record_def ascii_def chr_isspace_def)

lemma example_record_alone:
  "parse_log_file ascii_only example_loads [example_record]
     = Inr [\<lparr> rr_session_id = JStr (ascii ''s1''), rr_ip = JStr (ascii ''10.0.0.7''),
              characters = [ascii ''A''], rr_codepoints = [JStr (ascii ''0041'')],
              char_count = 1 \<rparr>]"
proof -
  have k: "str_upper ascii_only (ascii ''0041'') = fmt_04X 0x41"
    by (simp add: fmt_04X_small hex_digit_def ascii_def str_upper_def is_ascii_def)
  have "(0x41::nat) \<in> set registry_codepoints"
    unfolding registry_set by simp
  from codepoint_to_char_registered [OF this k]
  have c: "codepoint_to_char ascii_only (ascii ''0041'') = ascii ''A''"
    by (simp add: ascii_def)
  have ne: "example_record \<noteq> []"
    by (simp add: example_record_def ascii_def)
  have g: "entry_get [(ascii ''session_id'', JStr (ascii ''s1'')),
                      (ascii ''codepoint'', JStr (ascii ''0041'')),
                      (ascii ''ip'', JStr (ascii ''10.0.0.7''))] (ascii ''session_id'') d = JStr (ascii ''s1'')"
    "entry_get [(ascii ''session_id'', JStr (ascii ''s1'')),
                      (ascii ''codepoint'', JStr (ascii ''0041'')),
                      (ascii ''ip'', JStr (ascii ''10.0.0.7''))] (ascii ''codepoint'') d = JStr (ascii ''0041'')"
    "entry_get [(ascii ''session_id'', JStr (ascii ''s1'')),
                      (ascii ''codepoint'', JStr (ascii ''0041'')),
                      (ascii ''ip'', JStr (ascii ''10.0.0.7''))] (ascii ''ip'') d = JStr (ascii ''10.0.0.7'')"
    for d
    by (simp_all add: entry_get_def ascii_def)
  show ?thesis
    unfolding parse_log_file_def
    by (simp add: parse_line_def example_record_stripped example_loads_def ne g
        new_replay_session_def build_result_def py_sorted_def c)
qed

text \<open>
  C3. The claim holds for lines that \<open>json.loads\<close> rejects, but not for every malformed
  line: a line that decodes to a value other than an object raises \<open>AttributeError\<close>
  at \<open>entry.get\<close>, which the \<open>except\<close> clause does not catch. A log of one
  well-formed record followed by the line \<open>42\<close> yields the exception and no result, where
  the well-formed record alone yields its session.
\<close>

theorem parse_log_file_non_object_line_aborts:
  "parse_log_file ascii_only example_loads [example_record, ascii ''42''] = Inl AttributeError
   \<and> parse_log_file ascii_only example_loads [example_record]
       = Inr [\<lparr> rr_session_id = JStr (ascii ''s1''), rr_ip = JStr (ascii ''10.0.0.7''),
                characters = [ascii ''A''], rr_codepoints = [JStr (ascii ''0041'')],
                char_count = 1 \<rparr>]"
proof -
  have ne: "example_record \<noteq> []" "ascii ''42'' \<noteq> example_record"
    by (simp_all add: example_record_def ascii_def)
  have s: "str_strip ascii_only (ascii ''42'') = ascii ''42''"
    by (simp add: str_strip_def ascii_def chr_isspace_def)
  have d: "example_loads (ascii ''42'') = Some (JInt 42)"
    using ne(2) by (simp add: example_loads_def)
  have n: "ascii ''42'' \<noteq> []"
    by (simp add: ascii_def)
  have l: "parse_line ascii_only example_loads (ascii ''42'') t = Inl AttributeError" for t
    unfolding parse_line_def s Let_def d using n by simp
  obtain t where t: "parse_lines ascii_only example_loads [example_record] [] = Inr t"
    using example_record_alone unfolding parse_log_file_def by (cases "parse_lines ascii_only example_loads [example_record] []") simp_all
  have "parse_lines ascii_only example_loads ([example_record] @ [ascii ''42'']) [] = Inl AttributeError"
    unfolding parse_lines_append t by (simp add: l)
  then show ?thesis
    using example_record_alone by (simp add: parse_log_file_def)
qed

end
